theory Spec2Isabelle
  imports Complex_Main
begin

section \<open>Python strings, slices and ranges\<close>

text \<open>
  A Python \<open>str\<close> is modelled as a \<open>string\<close>, one \<open>char\<close> per code point (code
  points below 256).  \<open>isspace\<close> is \<open>str.isspace\<close> on one character: the
  characters that \<open>str.split()\<close>, \<open>str.strip()\<close> and the regular expression class
  \<open>\s\<close> treat as whitespace.
\<close>

definition isspace :: "char \<Rightarrow> bool" where
  "isspace c \<longleftrightarrow> (of_char c :: nat) \<in> set [9, 10, 11, 12, 13, 28, 29, 30, 31, 32, 133, 160]"

text \<open>
  \<open>clip len k\<close> turns a slice bound \<open>k\<close> into an offset of a sequence of length
  \<open>len\<close>: a negative bound counts from the end, and the result is clamped to
  \<open>[0, len]\<close>.  \<open>pyslice xs lo hi\<close> is \<open>xs[lo:hi]\<close>.
\<close>

definition clip :: "nat \<Rightarrow> int \<Rightarrow> nat" where
  "clip len k = (if k < 0 then nat (max 0 (int len + k)) else min len (nat k))"

definition pyslice :: "'a list \<Rightarrow> int \<Rightarrow> int \<Rightarrow> 'a list" where
  "pyslice xs lo hi =
     (let a = clip (length xs) lo; b = clip (length xs) hi
      in take (b - a) (drop a xs))"

text \<open>\<open>range(v)\<close>: empty when \<open>v \<le> 0\<close>.\<close>

definition py_range :: "int \<Rightarrow> nat list" where
  "py_range v = [0 ..< nat v]"

text \<open>\<open>w.startswith(p)\<close>.\<close>

definition startswith :: "string \<Rightarrow> string \<Rightarrow> bool" where
  "startswith w p \<longleftrightarrow> take (length p) w = p"

text \<open>
  \<open>text.split()\<close> with no separator: the maximal runs of non-whitespace characters,
  in order.  \<open>cur\<close> is the run being read.
\<close>

fun split_run :: "string \<Rightarrow> string \<Rightarrow> string list" where
  "split_run cur [] = (if cur = [] then [] else [cur])"
| "split_run cur (c # cs) =
     (if isspace c then (if cur = [] then split_run [] cs else cur # split_run [] cs)
      else split_run (cur @ [c]) cs)"

definition split :: "string \<Rightarrow> string list" where
  "split text = split_run [] text"

text \<open>\<open>text.strip()\<close>: whitespace removed at both ends.\<close>

definition strip :: "string \<Rightarrow> string" where
  "strip text = rev (dropWhile isspace (rev (dropWhile isspace text)))"

section \<open>ngram.py: NgramCharacterModel\<close>

text \<open>
  The two \<open>defaultdict(int)\<close> tables are total functions with value 0 at a key never
  written (reading such a key stores 0 under it, which leaves every value the same).
  \<open>self.words\<close> is a Python set; the field holds its elements without
  repetition, in the order in which the set is iterated.  Python does not specify that
  order: \<open>set_add\<close> appends a new element, and the theorems about the queries quantify
  over every other order (\<open>words := ws\<close>).
\<close>

record model =
  model_n :: int
  ngram_counts :: "string \<Rightarrow> nat"
  prefix_counts :: "string \<Rightarrow> nat"
  words :: "string list"

datatype error = ValueError

definition set_add :: "'a \<Rightarrow> 'a list \<Rightarrow> 'a list" where
  "set_add x xs = (if x \<in> set xs then xs else xs @ [x])"

text \<open>\<open>("#" * (n - 1)) + word + "$"\<close>; a repetition count below 1 gives the empty string.\<close>

definition pad :: "int \<Rightarrow> string \<Rightarrow> string" where
  "pad k word = replicate (nat (k - 1)) CHR ''#'' @ word @ ''$''"

definition window :: "int \<Rightarrow> string \<Rightarrow> nat \<Rightarrow> string" where
  "window k padded_word i = pyslice padded_word (int i) (int i + k)"

text \<open>The body of the inner loop of \<open>_train\<close>, for one offset \<open>i\<close>.\<close>

definition count_window :: "string \<Rightarrow> nat \<Rightarrow> model \<Rightarrow> model" where
  "count_window padded_word i m =
     (let ngram = window (model_n m) padded_word i;
          prefix = pyslice ngram 0 (- 1)
      in m\<lparr>ngram_counts := (ngram_counts m)(ngram := ngram_counts m ngram + 1),
            prefix_counts := (prefix_counts m)(prefix := prefix_counts m prefix + 1)\<rparr>)"

text \<open>The body of the outer loop of \<open>_train\<close>, for one token.\<close>

definition train_word :: "string \<Rightarrow> model \<Rightarrow> model" where
  "train_word word m =
     (let m1 = m\<lparr>words := set_add word (words m)\<rparr>;
          padded_word = pad (model_n m1) word
      in fold (count_window padded_word)
           (py_range (int (length padded_word) - model_n m1 + 1)) m1)"

definition train :: "model \<Rightarrow> string \<Rightarrow> model" where
  "train m corpus = fold train_word (split corpus) m"

text \<open>
  \<open>__init__\<close>: the fields are set and \<open>_train\<close> runs.  Nothing in it inspects \<open>n\<close>,
  and no statement of it or of \<open>_train\<close> can raise; the result type is a sum so that
  a failing construction can be talked about.
\<close>

definition empty_model :: "int \<Rightarrow> model" where
  "empty_model k = \<lparr>model_n = k, ngram_counts = (\<lambda>_. 0), prefix_counts = (\<lambda>_. 0), words = []\<rparr>"

definition NgramCharacterModel :: "string \<Rightarrow> int \<Rightarrow> error + model" where
  "NgramCharacterModel corpus k = Inr (train (empty_model k) corpus)"

text \<open>
  \<open>math.log\<close> raises \<open>ValueError\<close> on an argument that is not positive.  Floats are
  idealised as reals throughout: rounding, and underflow of \<open>math.exp\<close>, are not
  modelled.
\<close>

definition py_log :: "real \<Rightarrow> error + real" where
  "py_log x = (if x \<le> 0 then Inl ValueError else Inr (ln x))"

text \<open>
  The loop of \<open>_word_probability\<close> over the offsets still to visit, with the
  running \<open>log_prob\<close>.
\<close>

fun word_probability_loop :: "model \<Rightarrow> string \<Rightarrow> nat list \<Rightarrow> real \<Rightarrow> error + real" where
  "word_probability_loop m padded_word [] log_prob = Inr (exp log_prob)"
| "word_probability_loop m padded_word (i # rest) log_prob =
     (let ngram = window (model_n m) padded_word i;
          prefix = pyslice ngram 0 (- 1);
          count_ngram = ngram_counts m ngram;
          count_prefix = prefix_counts m prefix
      in if count_prefix = 0 then Inr 0
         else (case py_log (real count_ngram / real count_prefix) of
                 Inl e \<Rightarrow> Inl e
               | Inr l \<Rightarrow> word_probability_loop m padded_word rest (log_prob + l)))"

definition word_probability :: "model \<Rightarrow> string \<Rightarrow> error + real" where
  "word_probability m word =
     (let padded_word = pad (model_n m) word
      in word_probability_loop m padded_word
           (py_range (int (length padded_word) - model_n m + 1)) 0)"

text \<open>
  \<open>keyed key xs\<close> computes the sort key of every element, in order, as \<open>list.sort\<close>
  and \<open>max\<close> do; the first key that raises ends the computation.
\<close>

fun keyed :: "('a \<Rightarrow> error + real) \<Rightarrow> 'a list \<Rightarrow> error + (real \<times> 'a) list" where
  "keyed key [] = Inr []"
| "keyed key (x # xs) =
     (case key x of
        Inl e \<Rightarrow> Inl e
      | Inr k \<Rightarrow> (case keyed key xs of Inl e \<Rightarrow> Inl e | Inr ks \<Rightarrow> Inr ((k, x) # ks)))"

text \<open>
  \<open>max(xs, key=...)\<close>: the best element so far is replaced only by one with a strictly
  greater key; an empty argument raises \<open>ValueError\<close>.
\<close>

fun py_max_loop :: "real \<times> 'a \<Rightarrow> (real \<times> 'a) list \<Rightarrow> 'a" where
  "py_max_loop (bk, b) [] = b"
| "py_max_loop (bk, b) ((k, x) # rest) =
     (if k > bk then py_max_loop (k, x) rest else py_max_loop (bk, b) rest)"

fun py_max :: "(real \<times> 'a) list \<Rightarrow> error + 'a" where
  "py_max [] = Inl ValueError"
| "py_max (p # ps) = Inr (py_max_loop p ps)"

text \<open>
  \<open>xs.sort(key=..., reverse=True)\<close>: the list is reversed, sorted by a stable sort in
  ascending key order, and reversed again.
\<close>

definition sort_reverse :: "(real \<times> 'a) list \<Rightarrow> 'a list" where
  "sort_reverse ks = map snd (rev (sort_key fst (rev ks)))"

definition candidates_for :: "model \<Rightarrow> string \<Rightarrow> string list" where
  "candidates_for m prefix = filter (\<lambda>w. startswith w prefix) (words m)"

definition generate_word :: "model \<Rightarrow> string \<Rightarrow> error + string" where
  "generate_word m prefix =
     (let candidates = candidates_for m prefix
      in if candidates = [] then Inr prefix
         else (case keyed (word_probability m) candidates of
                 Inl e \<Rightarrow> Inl e
               | Inr ks \<Rightarrow> py_max ks))"

definition predict_top_words :: "model \<Rightarrow> string \<Rightarrow> int \<Rightarrow> error + string list" where
  "predict_top_words m prefix top_k =
     (let candidates = candidates_for m prefix
      in if candidates = [] then Inr []
         else (case keyed (word_probability m) candidates of
                 Inl e \<Rightarrow> Inl e
               | Inr ks \<Rightarrow> Inr (pyslice (sort_reverse ks) 0 top_k)))"

section \<open>user\_interface.py: TerminalUI\<close>

text \<open>
  The fields of \<open>TerminalUI\<close> that \<open>handle_input\<close> reads or writes; the curses
  windows, \<open>text_content\<close> and the cursor's screen position belong to the drawing
  code.  \<open>cursor_pos\<close>, \<open>current_suggestion_idx\<close> and the two counters are
  Python integers that start at 0 and are decremented only under a \<open>> 0\<close> test:
  they are naturals.  \<open>scores\<close> is the list that \<open>calculate_scores\<close> returns, its two
  counters read as reals.
\<close>

record ui =
  suggestions :: "string list"
  current_suggestion_idx :: nat
  scores :: "real list"
  user_input :: string
  cursor_pos :: nat
  prediction_model :: model
  total_letter_keys_typed :: nat
  total_tab_key_presses :: nat

definition TerminalUI :: "model \<Rightarrow> ui" where
  "TerminalUI prediction_model' =
     \<lparr>suggestions = [], current_suggestion_idx = 0, scores = [], user_input = [],
      cursor_pos = 0, prediction_model = prediction_model',
      total_letter_keys_typed = 0, total_tab_key_presses = 0\<rparr>"

definition calculate_scores :: "ui \<Rightarrow> string \<Rightarrow> real list" where
  "calculate_scores s text =
     (let num_words = length (split (strip text));
          avg_letters = (if num_words > 0
                         then real (total_letter_keys_typed s) / real num_words else 0);
          avg_tabs = (if num_words > 0
                      then real (total_tab_key_presses s) / real num_words else 0)
      in [real (total_letter_keys_typed s), real (total_tab_key_presses s),
          avg_letters, avg_tabs])"

text \<open>
  \<open>re.search(r"[^\s]*$", text).group(0)\<close>: the leftmost run of non-whitespace
  characters that ends where \<open>$\<close> matches, namely at the end of the text or just before
  a newline that is its last character.  The search always succeeds.
\<close>

definition tail_match :: "string \<Rightarrow> string" where
  "tail_match text =
     (if text \<noteq> [] \<and> last text = CHR 0x0A
      then rev (takeWhile (\<lambda>c. \<not> isspace c) (rev (butlast text)))
      else rev (takeWhile (\<lambda>c. \<not> isspace c) (rev text)))"

definition find_last_word_start :: "string \<Rightarrow> nat \<Rightarrow> nat" where
  "find_last_word_start text cursor_pos' =
     (if cursor_pos' = 0 then 0
      else cursor_pos' - length (tail_match (pyslice text 0 (int cursor_pos'))))"

definition get_current_word :: "ui \<Rightarrow> string" where
  "get_current_word s =
     (let word_start = find_last_word_start (user_input s) (cursor_pos s)
      in pyslice (user_input s) (int word_start) (int (cursor_pos s)))"

definition replace_current_word :: "ui \<Rightarrow> string \<Rightarrow> ui" where
  "replace_current_word s new_word =
     (let word_start = find_last_word_start (user_input s) (cursor_pos s)
      in s\<lparr>user_input := pyslice (user_input s) 0 (int word_start) @ new_word
                          @ drop (cursor_pos s) (user_input s),
            cursor_pos := word_start + length new_word\<rparr>)"

text \<open>The key codes of the curses library that \<open>handle_input\<close> compares with.\<close>

definition KEY_LEFT :: int where "KEY_LEFT = 260"
definition KEY_RIGHT :: int where "KEY_RIGHT = 261"
definition KEY_BACKSPACE :: int where "KEY_BACKSPACE = 263"
definition KEY_RESIZE :: int where "KEY_RESIZE = 410"

text \<open>
  The three statements that follow a change of the buffer or of the cursor:
  \<open>current_word = self.get_current_word()\<close>,
  \<open>self.suggestions = self.prediction_model.predict_top_words(current_word)\<close> (with the
  default \<open>top_k = 10\<close>) and \<open>self.current_suggestion_idx = 0\<close>.
\<close>

definition refresh_suggestions :: "ui \<Rightarrow> error + ui" where
  "refresh_suggestions s =
     (case predict_top_words (prediction_model s) (get_current_word s) 10 of
        Inl e \<Rightarrow> Inl e
      | Inr sugg \<Rightarrow> Inr (s\<lparr>suggestions := sugg, current_suggestion_idx := 0\<rparr>))"

definition rescore :: "ui \<Rightarrow> ui" where
  "rescore s = s\<lparr>scores := calculate_scores s (user_input s)\<rparr>"

text \<open>
  \<open>handle_input\<close> returns the new state and the flag that keeps the loop of \<open>run\<close>
  going; an exception of the model's query leaves the method.
\<close>

definition handle_input :: "ui \<Rightarrow> int \<Rightarrow> error + (ui \<times> bool)" where
  "handle_input s key =
     (if key = KEY_RESIZE then Inr (s, True)
      else if key = 27 then Inr (s, False)
      else if key = 9 then
        (let s1 = (if suggestions s \<noteq> []
                   then s\<lparr>current_suggestion_idx :=
                            (current_suggestion_idx s + 1) mod length (suggestions s)\<rparr>
                   else s)
         in Inr (s1\<lparr>total_tab_key_presses := total_tab_key_presses s1 + 1\<rparr>, True))
      else if key = 10 then
        (if suggestions s \<noteq> [] \<and> current_suggestion_idx s < length (suggestions s)
         then (let s1 = replace_current_word s (suggestions s ! current_suggestion_idx s)
               in Inr (s1\<lparr>suggestions := [], current_suggestion_idx := 0\<rparr>, True))
         else Inr (s, True))
      else if key \<in> set [KEY_BACKSPACE, 127, 8] then
        (if cursor_pos s > 0
         then (let s1 = s\<lparr>user_input := pyslice (user_input s) 0 (int (cursor_pos s) - 1)
                                          @ drop (cursor_pos s) (user_input s),
                           cursor_pos := cursor_pos s - 1\<rparr>
               in case refresh_suggestions s1 of
                    Inl e \<Rightarrow> Inl e
                  | Inr s2 \<Rightarrow> Inr (rescore s2, True))
         else Inr (s, True))
      else if key = KEY_LEFT then
        (if cursor_pos s > 0
         then (case refresh_suggestions (s\<lparr>cursor_pos := cursor_pos s - 1\<rparr>) of
                 Inl e \<Rightarrow> Inl e
               | Inr s2 \<Rightarrow> Inr (s2, True))
         else Inr (s, True))
      else if key = KEY_RIGHT then
        (if cursor_pos s < length (user_input s)
         then (case refresh_suggestions (s\<lparr>cursor_pos := cursor_pos s + 1\<rparr>) of
                 Inl e \<Rightarrow> Inl e
               | Inr s2 \<Rightarrow> Inr (s2, True))
         else Inr (s, True))
      else if 32 \<le> key \<and> key \<le> 126 then
        (let s1 = s\<lparr>total_letter_keys_typed := total_letter_keys_typed s + 1,
                     user_input := pyslice (user_input s) 0 (int (cursor_pos s))
                                    @ [char_of key] @ drop (cursor_pos s) (user_input s),
                     cursor_pos := cursor_pos s + 1\<rparr>
         in case refresh_suggestions s1 of
              Inl e \<Rightarrow> Inl e
            | Inr s2 \<Rightarrow> Inr (rescore s2, True))
      else Inr (s, True))"

text \<open>
  The loop of \<open>run\<close> on the keys that \<open>getch\<close> delivers: it dispatches one key after
  the other and ends as soon as \<open>handle_input\<close> returns \<open>False\<close>; the keys behind that
  one are never read.
\<close>

fun run :: "ui \<Rightarrow> int list \<Rightarrow> error + ui" where
  "run s [] = Inr s"
| "run s (key # keys) =
     (case handle_input s key of
        Inl e \<Rightarrow> Inl e
      | Inr (s', running) \<Rightarrow> if running then run s' keys else Inr s')"

section \<open>Notions used in the statements and proofs\<close>

text \<open>
  The windows that the loops of \<open>_train\<close> and \<open>_word_probability\<close> visit for one
  word, the conditioning prefix \<open>ngram[:-1]\<close> of a window, and the windows of a
  whole corpus.
\<close>

definition windows :: "int \<Rightarrow> string \<Rightarrow> string list" where
  "windows k word =
     map (window k (pad k word)) (py_range (int (length (pad k word)) - k + 1))"

definition ngram_prefix :: "string \<Rightarrow> string" where
  "ngram_prefix ngram = pyslice ngram 0 (- 1)"

definition corpus_ngrams :: "int \<Rightarrow> string \<Rightarrow> string list" where
  "corpus_ngrams k corpus = concat (map (windows k) (split corpus))"

text \<open>The conditional probability \<open>count_ngram / count_prefix\<close> of one window.\<close>

definition ratio :: "model \<Rightarrow> string \<Rightarrow> real" where
  "ratio m g = real (ngram_counts m g) / real (prefix_counts m (ngram_prefix g))"

text \<open>The value of \<open>_word_probability\<close> where it returns one.\<close>

definition probability :: "model \<Rightarrow> string \<Rightarrow> real" where
  "probability m w = (case word_probability m w of Inl e \<Rightarrow> 0 | Inr p \<Rightarrow> p)"

text \<open>
  The model built from a corpus, with its word set iterated in the order \<open>ws\<close>;
  \<open>iteration_order ws corpus\<close> says that \<open>ws\<close> enumerates the distinct tokens of the
  corpus.
\<close>

definition trained :: "int \<Rightarrow> string \<Rightarrow> string list \<Rightarrow> model" where
  "trained k corpus ws = (train (empty_model k) corpus)\<lparr>words := ws\<rparr>"

definition iteration_order :: "string list \<Rightarrow> string \<Rightarrow> bool" where
  "iteration_order ws corpus \<longleftrightarrow> distinct ws \<and> set ws = set (split corpus)"

definition key_pairs :: "model \<Rightarrow> string list \<Rightarrow> (real \<times> string) list" where
  "key_pairs m xs = map (\<lambda>w. (probability m w, w)) xs"

section \<open>Evaluation of the definitions\<close>

lemmas py_defs =
  split_def isspace_def strip_def pad_def py_range_def window_def pyslice_def clip_def
  set_add_def startswith_def

lemmas model_defs =
  train_def train_word_def count_window_def empty_model_def word_probability_def py_log_def

section \<open>What training counts\<close>


lemma fold_count_window_n [simp]: "model_n (fold (count_window pw) ns m) = model_n m"
  by (induction ns arbitrary: m) (simp_all add: count_window_def Let_def)

lemma fold_count_window_words [simp]: "words (fold (count_window pw) ns m) = words m"
  by (induction ns arbitrary: m) (simp_all add: count_window_def Let_def)

lemma fold_count_window_ngram:
  "ngram_counts (fold (count_window pw) ns m) g
     = ngram_counts m g + count_list (map (window (model_n m) pw) ns) g"
  by (induction ns arbitrary: m) (simp_all add: count_window_def Let_def)

lemma fold_count_window_prefix:
  "prefix_counts (fold (count_window pw) ns m) p
     = prefix_counts m p + count_list (map (\<lambda>i. ngram_prefix (window (model_n m) pw i)) ns) p"
  by (induction ns arbitrary: m) (simp_all add: count_window_def Let_def ngram_prefix_def)

lemma train_word_n [simp]: "model_n (train_word w m) = model_n m"
  by (simp add: train_word_def Let_def)

lemma train_word_words: "words (train_word w m) = set_add w (words m)"
  by (simp add: train_word_def Let_def)

lemma train_word_ngram:
  "ngram_counts (train_word w m) g = ngram_counts m g + count_list (windows (model_n m) w) g"
  by (simp add: train_word_def Let_def fold_count_window_ngram windows_def)

lemma train_word_prefix:
  "prefix_counts (train_word w m) p
     = prefix_counts m p + count_list (map ngram_prefix (windows (model_n m) w)) p"
  by (simp add: train_word_def Let_def fold_count_window_prefix windows_def comp_def)

lemma fold_train_word_n [simp]: "model_n (fold train_word ts m) = model_n m"
  by (induction ts arbitrary: m) simp_all

lemma fold_train_word_ngram:
  "ngram_counts (fold train_word ts m) g
     = ngram_counts m g + count_list (concat (map (windows (model_n m)) ts)) g"
  by (induction ts arbitrary: m) (simp_all add: train_word_ngram)

lemma fold_train_word_prefix:
  "prefix_counts (fold train_word ts m) p
     = prefix_counts m p + count_list (map ngram_prefix (concat (map (windows (model_n m)) ts))) p"
  by (induction ts arbitrary: m) (simp_all add: train_word_prefix)

lemma fold_train_word_set: "set (words (fold train_word ts m)) = set (words m) \<union> set ts"
  by (induction ts arbitrary: m) (auto simp: train_word_words set_add_def)

lemma fold_train_word_distinct: "distinct (words m) \<Longrightarrow> distinct (words (fold train_word ts m))"
  by (induction ts arbitrary: m) (auto simp: train_word_words set_add_def)

lemma train_n [simp]: "model_n (train (empty_model k) corpus) = k"
  by (simp add: train_def) (simp add: empty_model_def)

lemma train_ngram: "ngram_counts (train (empty_model k) corpus) g = count_list (corpus_ngrams k corpus) g"
  by (simp add: train_def fold_train_word_ngram corpus_ngrams_def) (simp add: empty_model_def)

lemma train_prefix:
  "prefix_counts (train (empty_model k) corpus) p = count_list (map ngram_prefix (corpus_ngrams k corpus)) p"
  by (simp add: train_def fold_train_word_prefix corpus_ngrams_def) (simp add: empty_model_def)

lemma train_words_set: "set (words (train (empty_model k) corpus)) = set (split corpus)"
  by (simp add: train_def fold_train_word_set) (simp add: empty_model_def)

lemma train_words_distinct: "distinct (words (train (empty_model k) corpus))"
  by (simp add: train_def fold_train_word_distinct empty_model_def)

section \<open>The probability of a counted word\<close>

lemma word_probability_loop_words [simp]:
  "word_probability_loop (m\<lparr>words := ws\<rparr>) pw ns lp = word_probability_loop m pw ns lp"
  by (induction ns arbitrary: lp) (simp_all add: Let_def split: sum.splits)

lemma word_probability_words [simp]:
  "word_probability (m\<lparr>words := ws\<rparr>) w = word_probability m w"
  by (simp add: word_probability_def)

lemma word_probability_loop_counted:
  assumes "\<forall>i\<in>set ns. 0 < ngram_counts m (window (model_n m) pw i)
             \<and> 0 < prefix_counts m (ngram_prefix (window (model_n m) pw i))"
  shows "word_probability_loop m pw ns lp
           = Inr (exp lp * (\<Prod>g\<leftarrow>map (window (model_n m) pw) ns. ratio m g))"
  using assms
proof (induction ns arbitrary: lp)
  case Nil
  then show ?case by simp
next
  case (Cons i ns)
  let ?g = "window (model_n m) pw i"
  have pos: "0 < ngram_counts m ?g" "0 < prefix_counts m (ngram_prefix ?g)"
    using Cons.prems by simp_all
  then have r: "0 < ratio m ?g" by (simp add: ratio_def)
  then have nr: "\<not> ratio m ?g \<le> 0" by simp
  have "word_probability_loop m pw (i # ns) lp
          = word_probability_loop m pw ns (lp + ln (ratio m ?g))"
    using pos nr unfolding ratio_def ngram_prefix_def by (simp add: Let_def py_log_def)
  also have "\<dots> = Inr (exp (lp + ln (ratio m ?g)) * (\<Prod>g\<leftarrow>map (window (model_n m) pw) ns. ratio m g))"
    using Cons.prems by (intro Cons.IH) simp
  also have "exp (lp + ln (ratio m ?g)) = exp lp * ratio m ?g"
    using r by (simp add: exp_add)
  finally show ?case by (simp add: mult.assoc)
qed

lemma windows_counted:
  assumes "w \<in> set (split corpus)" "g \<in> set (windows k w)"
  shows "0 < ngram_counts (train (empty_model k) corpus) g"
    and "0 < prefix_counts (train (empty_model k) corpus) (ngram_prefix g)"
proof -
  have "g \<in> set (corpus_ngrams k corpus)"
    using assms by (auto simp: corpus_ngrams_def)
  then show "0 < ngram_counts (train (empty_model k) corpus) g"
    by (simp only: train_ngram) (metis count_list_0_iff gr0I)
  from \<open>g \<in> set (corpus_ngrams k corpus)\<close>
  have "ngram_prefix g \<in> set (map ngram_prefix (corpus_ngrams k corpus))" by simp
  then show "0 < prefix_counts (train (empty_model k) corpus) (ngram_prefix g)"
    by (simp only: train_prefix) (metis count_list_0_iff gr0I)
qed

lemma prod_list_pos: "(\<forall>x\<in>set xs. 0 < (x::real)) \<Longrightarrow> 0 < prod_list xs"
  by (induction xs) simp_all

lemma trained_word_probability:
  assumes "w \<in> set (split corpus)"
  shows "word_probability (train (empty_model k) corpus) w
           = Inr (\<Prod>g\<leftarrow>windows k w. ratio (train (empty_model k) corpus) g)"
    and "0 < (\<Prod>g\<leftarrow>windows k w. ratio (train (empty_model k) corpus) g)"
proof -
  let ?m = "train (empty_model k) corpus"
  have c: "\<forall>g\<in>set (windows k w). 0 < ngram_counts ?m g \<and> 0 < prefix_counts ?m (ngram_prefix g)"
    using windows_counted [OF assms] by blast
  then have "\<forall>i\<in>set (py_range (int (length (pad k w)) - k + 1)).
               0 < ngram_counts ?m (window (model_n ?m) (pad k w) i)
               \<and> 0 < prefix_counts ?m (ngram_prefix (window (model_n ?m) (pad k w) i))"
    by (simp add: windows_def)
  from word_probability_loop_counted [OF this, of 0]
  show "word_probability ?m w = Inr (\<Prod>g\<leftarrow>windows k w. ratio ?m g)"
    by (simp add: word_probability_def windows_def Let_def)
  show "0 < (\<Prod>g\<leftarrow>windows k w. ratio ?m g)"
    using c by (intro prod_list_pos) (simp add: ratio_def)
qed

section \<open>Counts of n-grams and of their prefixes\<close>

lemma count_list_map_sum:
  "count_list (map f xs) y = (\<Sum>x | x \<in> set xs \<and> f x = y. count_list xs x)"
proof -
  have "count_list (map f xs) y = length (filter (\<lambda>x. f x = y) xs)"
    by (induction xs) auto
  also have "\<dots> = (\<Sum>x\<in>set (filter (\<lambda>x. f x = y) xs). count_list (filter (\<lambda>x. f x = y) xs) x)"
    by (simp add: sum_count_set)
  also have "\<dots> = (\<Sum>x | x \<in> set xs \<and> f x = y. count_list xs x)"
  proof (rule sum.cong)
    show "set (filter (\<lambda>x. f x = y) xs) = {x \<in> set xs. f x = y}" by auto
  next
    fix x assume "x \<in> {x \<in> set xs. f x = y}"
    then have "f x = y" by simp
    then show "count_list (filter (\<lambda>x. f x = y) xs) x = count_list xs x"
      by (induction xs) auto
  qed
  finally show ?thesis .
qed

lemma count_list_map_le: "count_list xs x \<le> count_list (map f xs) (f x)"
  by (induction xs) auto

lemma window_length:
  assumes "0 \<le> k" "i \<in> set (py_range (int (length pw) - k + 1))"
  shows "length (window k pw i) = nat k"
  using assms by (auto simp: window_def pyslice_def clip_def py_range_def Let_def)

lemma ngram_prefix_order:
  assumes "0 \<le> k" "length g = nat k"
  shows "ngram_prefix g = pyslice g 0 (k - 1)"
  using assms by (auto simp: ngram_prefix_def pyslice_def clip_def Let_def)

lemma windows_prefix:
  assumes "0 \<le> k" "g \<in> set (windows k w)"
  shows "ngram_prefix g = pyslice g 0 (k - 1)"
proof -
  from assms(2) obtain i where "i \<in> set (py_range (int (length (pad k w)) - k + 1))"
    and "g = window k (pad k w) i" by (auto simp: windows_def)
  then show ?thesis using window_length [OF assms(1)] ngram_prefix_order [OF assms(1)] by blast
qed

lemma corpus_ngrams_prefix:
  assumes "0 \<le> k" "g \<in> set (corpus_ngrams k corpus)"
  shows "ngram_prefix g = pyslice g 0 (k - 1)"
  using assms windows_prefix by (auto simp: corpus_ngrams_def)

section \<open>Keys, maximum and descending sort\<close>

lemma keyed_defined:
  assumes "\<forall>w\<in>set xs. \<exists>p. word_probability m w = Inr p"
  shows "keyed (word_probability m) xs = Inr (key_pairs m xs)"
  using assms by (induction xs) (auto simp: key_pairs_def probability_def)

lemma trained_probability:
  assumes "iteration_order ws corpus" "w \<in> set ws"
  shows "\<exists>p. word_probability (trained k corpus ws) w = Inr p \<and> 0 < p"
  using assms trained_word_probability [of w corpus k]
  by (auto simp: iteration_order_def trained_def)

lemma trained_keyed:
  assumes "iteration_order ws corpus"
  shows "keyed (word_probability (trained k corpus ws)) (candidates_for (trained k corpus ws) p)
           = Inr (key_pairs (trained k corpus ws) (candidates_for (trained k corpus ws) p))"
proof (rule keyed_defined, rule ballI)
  fix w assume "w \<in> set (candidates_for (trained k corpus ws) p)"
  then have "w \<in> set ws" by (simp add: candidates_for_def trained_def)
  with trained_probability [OF assms] show "\<exists>q. word_probability (trained k corpus ws) w = Inr q"
    by blast
qed

lemma py_max_loop_first:
  assumes "py_max_loop (f b, b) (map (\<lambda>w. (f w, w)) xs) = r"
  shows "\<exists>ys zs. b # xs = ys @ r # zs
     \<and> (\<forall>z\<in>set ys. f z < f r) \<and> (\<forall>z\<in>set zs. f z \<le> f r)"
  using assms
proof (induction xs arbitrary: b)
  case Nil
  then have "r = b" by simp
  then have "[b] = [] @ r # [] \<and> (\<forall>z\<in>set []. f z < f r) \<and> (\<forall>z\<in>set []. f z \<le> f r)"
    by simp
  then show ?case by blast
next
  case (Cons x xs)
  show ?case
  proof (cases "f b < f x")
    case True
    with Cons.prems have "py_max_loop (f x, x) (map (\<lambda>w. (f w, w)) xs) = r" by simp
    from Cons.IH [OF this] obtain ys zs where d: "x # xs = ys @ r # zs"
      and lt: "\<forall>z\<in>set ys. f z < f r" and le: "\<forall>z\<in>set zs. f z \<le> f r" by blast
    have "f x \<le> f r"
    proof (cases ys)
      case Nil with d show ?thesis by simp
    next
      case (Cons y ys') with d lt show ?thesis by auto
    qed
    with True have "f b < f r" by simp
    with d lt le have "b # x # xs = (b # ys) @ r # zs \<and> (\<forall>z\<in>set (b # ys). f z < f r)
        \<and> (\<forall>z\<in>set zs. f z \<le> f r)" by simp
    then show ?thesis by blast
  next
    case False
    with Cons.prems have "py_max_loop (f b, b) (map (\<lambda>w. (f w, w)) xs) = r" by simp
    from Cons.IH [OF this] obtain ys zs where d: "b # xs = ys @ r # zs"
      and lt: "\<forall>z\<in>set ys. f z < f r" and le: "\<forall>z\<in>set zs. f z \<le> f r" by blast
    show ?thesis
    proof (cases ys)
      case Nil
      with d have "r = b" "zs = xs" by simp_all
      with le False have "b # x # xs = [] @ r # (x # xs) \<and> (\<forall>z\<in>set []. f z < f r)
        \<and> (\<forall>z\<in>set (x # xs). f z \<le> f r)" by auto
      then show ?thesis by blast
    next
      case (Cons y ys')
      with d have y: "y = b" and xs: "xs = ys' @ r # zs" by simp_all
      from lt Cons y have "f b < f r" by simp
      with False have "f x < f r" by simp
      with lt le Cons y xs have "b # x # xs = (b # x # ys') @ r # zs
        \<and> (\<forall>z\<in>set (b # x # ys'). f z < f r) \<and> (\<forall>z\<in>set zs. f z \<le> f r)" by auto
      then show ?thesis by blast
    qed
  qed
qed

lemma insort_key_snoc_max:
  "\<forall>y\<in>set ys. f y < f x \<Longrightarrow> insort_key f x ys = ys @ [x]"
  by (induction ys) auto

lemma insort_key_before_last:
  "f a \<le> f x \<Longrightarrow> insort_key f a (ys @ [x]) = insort_key f a ys @ [x]"
  by (induction ys) auto

lemma sort_key_last_max:
  assumes "\<forall>a\<in>set as. f a \<le> f x" "\<forall>b\<in>set bs. f b < f x"
  shows "sort_key f (as @ x # bs) = sort_key f (as @ bs) @ [x]"
  using assms
proof (induction as)
  case Nil
  then have "\<forall>y\<in>set (sort_key f bs). f y < f x" by simp
  then show ?case by (simp add: insort_key_snoc_max)
next
  case (Cons a as)
  then show ?case by (simp add: insort_key_before_last)
qed

lemma sort_reverse_head:
  assumes "xs = ys @ b # zs" "\<forall>z\<in>set ys. f z < f b" "\<forall>z\<in>set zs. f z \<le> f b"
  shows "sort_reverse (map (\<lambda>w. (f w, w)) xs)
           = b # map snd (rev (sort_key fst (rev (map (\<lambda>w. (f w, w)) (ys @ zs)))))"
proof -
  let ?k = "\<lambda>w. (f w, w)"
  have "rev (map ?k xs) = rev (map ?k zs) @ ?k b # rev (map ?k ys)"
    by (simp add: assms(1))
  moreover have "sort_key fst (rev (map ?k zs) @ ?k b # rev (map ?k ys))
      = sort_key fst (rev (map ?k zs) @ rev (map ?k ys)) @ [?k b]"
    using assms(2,3) by (intro sort_key_last_max) auto
  ultimately show ?thesis by (simp add: sort_reverse_def)
qed

lemma sort_reverse_sorted:
  "sorted_wrt (\<lambda>a b. f b \<le> f a) (sort_reverse (map (\<lambda>w. (f w, w)) xs))"
proof -
  let ?k = "\<lambda>w. (f w, w)"
  let ?s = "sort_key fst (rev (map ?k xs))"
  have s: "sorted (map fst ?s)" by (rule sorted_sort_key)
  have in_s: "\<forall>p\<in>set ?s. fst p = f (snd p)" by auto
  have "sorted_wrt (\<lambda>p q. fst p \<le> fst q) ?s"
    using s by (simp add: sorted_wrt_map)
  then have "sorted_wrt (\<lambda>p q. f (snd p) \<le> f (snd q)) ?s"
    by (rule sorted_wrt_mono_rel [rotated]) (use in_s in auto)
  then have "sorted_wrt (\<lambda>p q. f (snd q) \<le> f (snd p)) (rev ?s)"
    by (simp add: sorted_wrt_rev)
  then show ?thesis by (simp add: sort_reverse_def sorted_wrt_map)
qed

lemma sort_reverse_set [simp]: "set (sort_reverse (map (\<lambda>w. (f w, w)) xs)) = set xs"
  by (force simp: sort_reverse_def)

lemma sort_reverse_length [simp]: "length (sort_reverse ks) = length ks"
  by (simp add: sort_reverse_def)

lemma pyslice_take: "0 \<le> k \<Longrightarrow> pyslice xs 0 k = take (nat k) xs"
  by (simp add: pyslice_def clip_def Let_def min_def)

lemma trained_words [simp]: "words (trained k corpus ws) = ws"
  by (simp add: trained_def)

lemma candidates_for_trained [simp]:
  "candidates_for (trained k corpus ws) p = filter (\<lambda>w. startswith w p) ws"
  by (simp add: candidates_for_def)

lemma trained_predict:
  assumes "iteration_order ws corpus"
  shows "predict_top_words (trained k corpus ws) p top_k
           = Inr (pyslice (sort_reverse (key_pairs (trained k corpus ws)
                    (filter (\<lambda>w. startswith w p) ws))) 0 top_k)"
proof (cases "filter (\<lambda>w. startswith w p) ws = []")
  case True
  then show ?thesis
    by (simp add: predict_top_words_def key_pairs_def sort_reverse_def pyslice_def)
next
  case False
  with trained_keyed [OF assms, of k p] show ?thesis
    by (simp add: predict_top_words_def)
qed

lemma find_skip: "\<forall>y\<in>set ys. \<not> P y \<Longrightarrow> find P (ys @ rest) = find P rest"
  by (induction ys) simp_all

lemma find_first_max:
  fixes f :: "'a \<Rightarrow> real"
  assumes "\<forall>z\<in>set ys. f z < f b" "\<forall>z\<in>set zs. f z \<le> f b"
  shows "find (\<lambda>w. \<forall>c\<in>set (ys @ b # zs). f c \<le> f w) (ys @ b # zs) = Some b"
proof -
  let ?P = "\<lambda>w. \<forall>c\<in>set (ys @ b # zs). f c \<le> f w"
  have b: "?P b" using assms by auto
  have "\<not> ?P y" if "y \<in> set ys" for y
  proof
    assume "?P y"
    then have "f b \<le> f y" by simp
    with assms(1) that show False by auto
  qed
  then have "\<forall>y\<in>set ys. \<not> ?P y" by blast
  then have "find ?P (ys @ b # zs) = find ?P (b # zs)"
    by (rule find_skip)
  also have "\<dots> = Some b" using b by simp
  finally show ?thesis .
qed

section \<open>The queries of a trained model\<close>

lemma trained_refresh:
  assumes "iteration_order ws corpus" "prediction_model s = trained k corpus ws"
  shows "\<exists>r. predict_top_words (prediction_model s) (get_current_word s) 10 = Inr r
           \<and> refresh_suggestions s = Inr (s\<lparr>suggestions := r, current_suggestion_idx := 0\<rparr>)"
  using trained_predict [OF assms(1), of k "get_current_word s" 10] assms(2)
  by (simp add: refresh_suggestions_def)

lemma get_current_word_cong:
  "user_input s' = user_input s \<Longrightarrow> cursor_pos s' = cursor_pos s \<Longrightarrow> get_current_word s' = get_current_word s"
  by (simp add: get_current_word_def)

lemmas key_defs = KEY_LEFT_def KEY_RIGHT_def KEY_BACKSPACE_def KEY_RESIZE_def

lemma train_as_trained:
  "train (empty_model k) corpus = trained k corpus (words (train (empty_model k) corpus))"
  by (simp add: trained_def)

lemma train_iteration_order: "iteration_order (words (train (empty_model k) corpus)) corpus"
  by (simp add: iteration_order_def train_words_set train_words_distinct)

lemma train_predict_length:
  assumes "0 \<le> top_k"
  shows "\<exists>r. predict_top_words (train (empty_model k) corpus) p top_k = Inr r
           \<and> length r = min (nat top_k)
                (length (filter (\<lambda>w. startswith w p) (words (train (empty_model k) corpus))))"
proof -
  let ?m = "train (empty_model k) corpus"
  from trained_predict [OF train_iteration_order, of k corpus k p top_k]
  have "predict_top_words ?m p top_k
          = Inr (pyslice (sort_reverse (key_pairs ?m (filter (\<lambda>w. startswith w p) (words ?m)))) 0 top_k)"
    by (simp add: train_as_trained [symmetric])
  then show ?thesis using assms by (simp add: pyslice_take key_pairs_def min.commute)
qed

lemma train_words: "words (train (empty_model k) corpus) = fold set_add (split corpus) []"
proof -
  have "words (fold train_word ts m) = fold set_add ts (words m)" for ts m
    by (induction ts arbitrary: m) (simp_all add: train_word_words)
  then show ?thesis by (simp add: train_def empty_model_def)
qed

lemma words_cat_car: "words (train (empty_model 2) ''cat car'') = [''cat'', ''car'']"
  by (simp add: train_words split_def isspace_def set_add_def)

lemma current_word_c:
  "user_input s = ''c'' \<Longrightarrow> cursor_pos s = 1 \<Longrightarrow> get_current_word s = ''c''"
  by (simp add: get_current_word_def find_last_word_start_def tail_match_def pyslice_def
      clip_def isspace_def Let_def)





lemma handle_input_running:
  "handle_input s key = Inr (s', running) \<Longrightarrow> running = (key \<noteq> 27)"
  by (auto simp: handle_input_def key_defs Let_def split: if_splits sum.splits)

lemma run_append:
  "27 \<notin> set pre \<Longrightarrow> run s (pre @ rest) = (case run s pre of Inl e \<Rightarrow> Inl e | Inr s' \<Rightarrow> run s' rest)"
proof (induction pre arbitrary: s)
  case Nil
  show ?case by simp
next
  case (Cons key pre)
  show ?case
  proof (cases "handle_input s key")
    case (Inl e)
    then show ?thesis by simp
  next
    case (Inr p)
    obtain s' running where p: "p = (s', running)" by (cases p)
    with Inr handle_input_running [of s key s' running] Cons.prems have "running" by simp
    with Inr p Cons show ?thesis by simp
  qed
qed

section \<open>Splitting a stripped text\<close>

lemma split_run_leading: "split_run [] (dropWhile isspace xs) = split_run [] xs"
  by (induction xs) simp_all

lemma split_run_spaces:
  "\<forall>c\<in>set sp. isspace c \<Longrightarrow> split_run cur sp = (if cur = [] then [] else [cur])"
  by (induction sp arbitrary: cur) simp_all

lemma split_run_trailing:
  "\<forall>c\<in>set sp. isspace c \<Longrightarrow> split_run cur (xs @ sp) = split_run cur xs"
  by (induction xs arbitrary: cur) (simp_all add: split_run_spaces)

lemma split_run_rstrip: "split_run cur (rev (dropWhile isspace (rev xs))) = split_run cur xs"
proof -
  let ?body = "rev (dropWhile isspace (rev xs))"
  let ?sp = "rev (takeWhile isspace (rev xs))"
  have "xs = ?body @ ?sp"
    by (metis rev_append rev_rev_ident takeWhile_dropWhile_id)
  moreover have "\<forall>c\<in>set ?sp. isspace c"
    by (auto dest: set_takeWhileD)
  ultimately show ?thesis using split_run_trailing [of ?sp cur ?body] by simp
qed

lemma split_strip: "split (strip text) = split text"
  by (simp add: split_def strip_def split_run_rstrip split_run_leading)

section \<open>A typing scenario\<close>

text \<open>
  The keys \<open>a\<close>, \<open>b\<close>, Tab, Tab, space, \<open>c\<close>, \<open>d\<close>, \<open>e\<close> from the initial state, on a
  model with an empty vocabulary: six keys are counted as letters (the space among
  them), Tab is counted twice, the buffer holds two words, and the scores computed at
  the last key are 6, 2, 3 and 1.
\<close>

lemma typing_scenario:
  "(case run (TerminalUI (train (empty_model 2) [])) [97, 98, 9, 9, 32, 99, 100, 101] of
      Inl e \<Rightarrow> False
    | Inr s \<Rightarrow> user_input s = ''ab cde'' \<and> total_letter_keys_typed s = 6
               \<and> total_tab_key_presses s = 2 \<and> scores s = [6, 2, 3, 1])"
proof -
  let ?m = "train (empty_model 2) []"
  have "words ?m = []" by (simp add: train_words split_def)
  then have p: "predict_top_words ?m q 10 = Inr []" for q
    by (simp add: predict_top_words_def candidates_for_def)
  have rf: "refresh_suggestions s = Inr (s\<lparr>suggestions := [], current_suggestion_idx := 0\<rparr>)"
    if "prediction_model s = ?m" for s
    using that p by (simp add: refresh_suggestions_def)
  have ch: "handle_input s key
      = Inr (rescore (s\<lparr>total_letter_keys_typed := total_letter_keys_typed s + 1,
                     user_input := take (cursor_pos s) (user_input s) @ [char_of key]
                                    @ drop (cursor_pos s) (user_input s),
                     cursor_pos := cursor_pos s + 1,
                     suggestions := [], current_suggestion_idx := 0\<rparr>), True)"
    if "prediction_model s = ?m" "32 \<le> key" "key \<le> 126" for s key
    using that by (simp add: handle_input_def key_defs Let_def rf pyslice_take)
  have tab: "handle_input s 9 = Inr (s\<lparr>total_tab_key_presses := total_tab_key_presses s + 1\<rparr>, True)"
    if "suggestions s = []" for s
    using that by (simp add: handle_input_def key_defs Let_def)
  show ?thesis
    by (simp add: ch tab rescore_def TerminalUI_def calculate_scores_def split_strip [unfolded split_def] split_def
        isspace_def char_of_def Let_def)
qed

section \<open>A negative order\<close>

text \<open>
  With the order \<open>-1\<close>, which the constructor accepts, the prefix \<open>a\<close> is counted once
  while no counted n-gram \<open>g\<close> has \<open>g[0:-2]\<close> equal to it.
\<close>

lemma corpus_ngrams_negative_order: "corpus_ngrams (- 1) ''ab'' = [''ab'', [], [], [], []]"
  by (simp add: corpus_ngrams_def windows_def py_defs upt_rec Let_def)

lemma negative_order_breaks_sum:
  "prefix_counts (train (empty_model (- 1)) ''ab'') ''a'' = 1
   \<and> (\<Sum>g | ngram_counts (train (empty_model (- 1)) ''ab'') g \<noteq> 0
             \<and> pyslice g 0 (- 1 - 1) = ''a''.
         ngram_counts (train (empty_model (- 1)) ''ab'') g) = 0"
proof -
  let ?m = "train (empty_model (- 1)) ''ab''"
  have p: "prefix_counts ?m ''a'' = 1"
    by (simp add: train_prefix corpus_ngrams_negative_order ngram_prefix_def pyslice_def clip_def)
  have "{g. ngram_counts ?m g \<noteq> 0 \<and> pyslice g 0 (- 1 - 1) = ''a''} = {}"
    by (auto simp: train_ngram corpus_ngrams_negative_order pyslice_def clip_def split: if_splits)
  then have "(\<Sum>g | ngram_counts ?m g \<noteq> 0 \<and> pyslice g 0 (- 1 - 1) = ''a''. ngram_counts ?m g) = 0"
    by (simp only: sum.empty)
  with p show ?thesis by blast
qed

section \<open>Word probability on an n-gram never counted\<close>

text \<open>
  Claim C1.  The claim says that \<open>probability(word)\<close> never raises and is \<open>0.0\<close> when a
  window of the padded word was never counted while its prefix was.  The code reaches
  \<open>math.log(0 / count_prefix)\<close> there, which raises \<open>ValueError\<close>: after training on
  the corpus \<open>ab\<close> with \<open>n = 2\<close>, the word \<open>ba\<close> has the first window \<open>#b\<close>, never
  counted, with the prefix \<open>#\<close> counted once.
\<close>

theorem word_probability_unseen_ngram_raises:
  "NgramCharacterModel ''ab'' 2 = Inr (train (empty_model 2) ''ab'')
   \<and> ngram_counts (train (empty_model 2) ''ab'') ''#b'' = 0
   \<and> prefix_counts (train (empty_model 2) ''ab'') ''#'' = 1
   \<and> word_probability (train (empty_model 2) ''ab'') ''ba'' = Inl ValueError"
  by (simp add: NgramCharacterModel_def py_defs model_defs upt_rec Let_def)

section \<open>Words of the corpus have positive probability\<close>



section \<open>The invariant of the two count tables\<close>

text \<open>
  Claim C4.  After training on any corpus with an order \<open>k \<ge> 0\<close> (the data model has
  \<open>k \<ge> 2\<close>): every n-gram \<open>g\<close> is counted at most as often as its first \<open>k - 1\<close>
  characters \<open>g[0:k-1]\<close> are counted as a prefix; finitely many n-grams are counted; and
  the count of every prefix \<open>p\<close> is the sum of the counts of the counted n-grams whose
  first \<open>k - 1\<close> characters are \<open>p\<close>.
\<close>

theorem train_counts_invariant:
  assumes "0 \<le> k"
  shows "(\<forall>g. ngram_counts (train (empty_model k) corpus) g
               \<le> prefix_counts (train (empty_model k) corpus) (pyslice g 0 (k - 1)))
       \<and> finite {g. ngram_counts (train (empty_model k) corpus) g \<noteq> 0}
       \<and> (\<forall>p. prefix_counts (train (empty_model k) corpus) p
                = (\<Sum>g | ngram_counts (train (empty_model k) corpus) g \<noteq> 0
                         \<and> pyslice g 0 (k - 1) = p.
                     ngram_counts (train (empty_model k) corpus) g))"
proof -
  let ?m = "train (empty_model k) corpus"
  let ?G = "corpus_ngrams k corpus"
  have supp: "{g. ngram_counts ?m g \<noteq> 0} = set ?G"
    by (auto simp: train_ngram count_list_0_iff)
  have fin: "finite {g. ngram_counts ?m g \<noteq> 0}"
    unfolding supp by (rule finite_set)
  have le: "ngram_counts ?m g \<le> prefix_counts ?m (pyslice g 0 (k - 1))" for g
  proof (cases "g \<in> set ?G")
    case True
    then have "pyslice g 0 (k - 1) = ngram_prefix g"
      using corpus_ngrams_prefix [OF assms] by simp
    then show ?thesis
      by (simp add: train_ngram train_prefix count_list_map_le)
  next
    case False
    then show ?thesis by (simp add: train_ngram count_list_0_iff)
  qed
  have sum: "prefix_counts ?m p
      = (\<Sum>g | ngram_counts ?m g \<noteq> 0 \<and> pyslice g 0 (k - 1) = p. ngram_counts ?m g)" for p
  proof -
    have "{g. ngram_counts ?m g \<noteq> 0 \<and> pyslice g 0 (k - 1) = p}
            = {g \<in> set ?G. ngram_prefix g = p}"
      using supp corpus_ngrams_prefix [OF assms, of _ corpus] by auto
    then show ?thesis
      by (simp add: train_prefix train_ngram count_list_map_sum)
  qed
  from le fin sum show ?thesis by blast
qed

theorem train_counts_invariant_witness:
  "(0::int) \<le> 2
   \<and> (\<forall>g. ngram_counts (train (empty_model 2) ''ab ac'') g
               \<le> prefix_counts (train (empty_model 2) ''ab ac'') (pyslice g 0 (2 - 1)))
   \<and> finite {g. ngram_counts (train (empty_model 2) ''ab ac'') g \<noteq> 0}
   \<and> (\<forall>p. prefix_counts (train (empty_model 2) ''ab ac'') p
            = (\<Sum>g | ngram_counts (train (empty_model 2) ''ab ac'') g \<noteq> 0
                     \<and> pyslice g 0 (2 - 1) = p.
                 ngram_counts (train (empty_model 2) ''ab ac'') g))"
proof -
  have h: "(0::int) \<le> 2" by simp
  from train_counts_invariant [OF h, of "''ab ac''"] h show ?thesis by blast
qed

section \<open>Construction with any order\<close>

text \<open>
  Claim C2, as stated, fails: \<open>__init__\<close> never looks at \<open>n\<close>, and with \<open>n = 1\<close>
  construction succeeds; the windows are the single characters of \<open>ab$\<close> and the
  empty prefix is counted three times.
\<close>

theorem order_one_constructs:
  "NgramCharacterModel ''ab'' 1 = Inr (train (empty_model 1) ''ab'')
   \<and> model_n (train (empty_model 1) ''ab'') = 1
   \<and> words (train (empty_model 1) ''ab'') = [''ab'']
   \<and> ngram_counts (train (empty_model 1) ''ab'') ''a'' = 1
   \<and> prefix_counts (train (empty_model 1) ''ab'') [] = 3"
  by (simp add: NgramCharacterModel_def py_defs model_defs upt_rec Let_def)

text \<open>
  Claim C2, amended.  Construction succeeds for every corpus and every integer order,
  below 2 as well as from 2 on: the model carries the order it was given and its words
  are the distinct tokens of the corpus.
\<close>

theorem construction_never_fails:
  "\<exists>m. NgramCharacterModel corpus k = Inr m \<and> model_n m = k
       \<and> distinct (words m) \<and> set (words m) = set (split corpus)"
  by (simp add: NgramCharacterModel_def train_words_set train_words_distinct)

section \<open>Queries without a candidate\<close>

text \<open>
  Claim C6.  When no word of the vocabulary starts with \<open>p\<close> (an empty vocabulary
  included), \<open>predict_top_words\<close> returns the empty list for every \<open>top_k\<close> and
  \<open>_generate_word\<close> returns \<open>p\<close> itself; neither raises.  This holds for every
  model, trained or not.
\<close>

theorem no_candidate_fallback:
  assumes "\<forall>w\<in>set (words m). \<not> startswith w p"
  shows "predict_top_words m p top_k = Inr [] \<and> generate_word m p = Inr p"
proof -
  from assms have "candidates_for m p = []"
    by (simp add: candidates_for_def filter_empty_conv)
  then show ?thesis by (simp add: predict_top_words_def generate_word_def)
qed

theorem no_candidate_fallback_witness:
  "words (train (empty_model 2) ''ab cd'') = [''ab'', ''cd'']
   \<and> \<not> startswith ''ab'' ''x'' \<and> \<not> startswith ''cd'' ''x''
   \<and> predict_top_words (train (empty_model 2) ''ab cd'') ''x'' 10 = Inr []
   \<and> generate_word (train (empty_model 2) ''ab cd'') ''x'' = Inr ''x''"
proof -
  have w: "words (train (empty_model 2) ''ab cd'') = [''ab'', ''cd'']"
    by (simp add: train_words split_def isspace_def set_add_def)
  have n: "\<not> startswith ''ab'' ''x''" "\<not> startswith ''cd'' ''x''"
    by (simp_all add: startswith_def)
  then have h: "\<forall>w\<in>set (words (train (empty_model 2) ''ab cd'')). \<not> startswith w ''x''"
    unfolding w by simp
  from no_candidate_fallback [OF h, of 10] w n show ?thesis by blast
qed

section \<open>The ranked completions\<close>

text \<open>
  Claim C5.  For a model trained on any corpus, in any iteration order \<open>ws\<close> of its
  word set, for every prefix \<open>p\<close> and every \<open>top_k \<ge> 0\<close>: \<open>predict_top_words\<close>
  returns a list \<open>r\<close> (it does not raise); the elements of \<open>r\<close> are words of the
  vocabulary that start with \<open>p\<close>; \<open>r\<close> is sorted by non-increasing probability, each
  of its words having one; \<open>r\<close> has at most \<open>top_k\<close> elements and at most as many as
  there are matching words; and \<open>r\<close> is empty when \<open>top_k = 0\<close>.
\<close>

theorem predict_top_words_ranked:
  assumes "iteration_order ws corpus" and "0 \<le> top_k"
  shows "\<exists>r. predict_top_words (trained k corpus ws) p top_k = Inr r
           \<and> set r \<subseteq> {w \<in> set (split corpus). startswith w p}
           \<and> sorted_wrt (\<lambda>a b. probability (trained k corpus ws) b
                                  \<le> probability (trained k corpus ws) a) r
           \<and> (\<forall>w\<in>set r. word_probability (trained k corpus ws) w
                            = Inr (probability (trained k corpus ws) w))
           \<and> length r \<le> nat top_k
           \<and> length r \<le> card {w \<in> set (split corpus). startswith w p}
           \<and> (top_k = 0 \<longrightarrow> r = [])"
proof -
  let ?m = "trained k corpus ws"
  let ?c = "filter (\<lambda>w. startswith w p) ws"
  let ?s = "sort_reverse (key_pairs ?m ?c)"
  let ?r = "take (nat top_k) ?s"
  have ws: "distinct ws" "set ws = set (split corpus)"
    using assms(1) by (simp_all add: iteration_order_def)
  have r: "predict_top_words ?m p top_k = Inr ?r"
    using trained_predict [OF assms(1)] assms(2) by (simp add: pyslice_take)
  have set_s: "set ?s = set ?c" by (simp add: key_pairs_def)
  have "set ?r \<subseteq> set ?s" by (rule set_take_subset)
  with set_s ws have sub: "set ?r \<subseteq> {w \<in> set (split corpus). startswith w p}" by auto
  have "sorted_wrt (\<lambda>a b. probability ?m b \<le> probability ?m a) ?s"
    unfolding key_pairs_def by (rule sort_reverse_sorted)
  then have srt: "sorted_wrt (\<lambda>a b. probability ?m b \<le> probability ?m a) ?r"
    by (rule sorted_wrt_take)
  have def: "\<forall>w\<in>set ?r. word_probability ?m w = Inr (probability ?m w)"
  proof
    fix w assume "w \<in> set ?r"
    with sub ws have "w \<in> set ws" by auto
    with trained_probability [OF assms(1)] obtain q where "word_probability ?m w = Inr q"
      by blast
    then show "word_probability ?m w = Inr (probability ?m w)" by (simp add: probability_def)
  qed
  have l1: "length ?r \<le> nat top_k" by simp
  have "card {w \<in> set (split corpus). startswith w p} = card (set ?c)"
    using ws by (intro arg_cong [where f = card]) auto
  also have "\<dots> = length ?c" by (rule distinct_card) (use ws in simp)
  finally have l2: "length ?r \<le> card {w \<in> set (split corpus). startswith w p}"
    by (simp add: key_pairs_def)
  have z: "top_k = 0 \<longrightarrow> ?r = []" by simp
  from r sub srt def l1 l2 z show ?thesis by blast
qed

theorem predict_top_words_ranked_witness:
  "iteration_order [''car'', ''cat'', ''dog''] ''cat dog car cat'' \<and> (0::int) \<le> 1
   \<and> (\<exists>r. predict_top_words (trained 2 ''cat dog car cat'' [''car'', ''cat'', ''dog'']) ''c'' 1 = Inr r
          \<and> set r \<subseteq> {w \<in> set (split ''cat dog car cat''). startswith w ''c''}
          \<and> sorted_wrt (\<lambda>a b. probability (trained 2 ''cat dog car cat'' [''car'', ''cat'', ''dog'']) b
                                 \<le> probability (trained 2 ''cat dog car cat'' [''car'', ''cat'', ''dog'']) a) r
          \<and> (\<forall>w\<in>set r. word_probability (trained 2 ''cat dog car cat'' [''car'', ''cat'', ''dog'']) w
                           = Inr (probability (trained 2 ''cat dog car cat'' [''car'', ''cat'', ''dog'']) w))
          \<and> length r \<le> nat 1
          \<and> length r \<le> card {w \<in> set (split ''cat dog car cat''). startswith w ''c''}
          \<and> ((1::int) = 0 \<longrightarrow> r = []))"
proof -
  have h: "iteration_order [''car'', ''cat'', ''dog''] ''cat dog car cat''"
    by (simp add: iteration_order_def split_def isspace_def) auto
  have k: "(0::int) \<le> 1" by simp
  from predict_top_words_ranked [OF h k, of 2 "''c''"] h k show ?thesis by blast
qed

section \<open>The best match and the head of the ranking\<close>

text \<open>
  Claim C10.  For a model trained on any corpus, in any iteration order \<open>ws\<close> of its
  word set, for every prefix \<open>p\<close> that some word starts with and every \<open>top_k \<ge> 1\<close>:
  \<open>_generate_word\<close> returns a word \<open>b\<close>, \<open>predict_top_words\<close> returns a list whose
  first element is \<open>b\<close>, and \<open>b\<close> is the first candidate, in iteration order, whose
  probability no candidate exceeds.
\<close>

theorem generate_word_heads_ranking:
  assumes "iteration_order ws corpus" and "\<exists>w\<in>set ws. startswith w p" and "1 \<le> top_k"
  shows "\<exists>b r. generate_word (trained k corpus ws) p = Inr b
           \<and> predict_top_words (trained k corpus ws) p top_k = Inr (b # r)
           \<and> find (\<lambda>w. \<forall>c\<in>set (candidates_for (trained k corpus ws) p).
                          probability (trained k corpus ws) c
                            \<le> probability (trained k corpus ws) w)
                  (candidates_for (trained k corpus ws) p) = Some b"
proof -
  let ?m = "trained k corpus ws"
  let ?f = "probability ?m"
  let ?c = "filter (\<lambda>w. startswith w p) ws"
  from assms(2) have ne: "?c \<noteq> []" by (simp add: filter_empty_conv)
  then obtain x xs where c: "?c = x # xs" by (cases ?c) auto
  define b where "b = py_max_loop (?f x, x) (map (\<lambda>w. (?f w, w)) xs)"
  from py_max_loop_first [OF b_def [symmetric]]
  obtain ys zs where d: "x # xs = ys @ b # zs"
    and lt: "\<forall>z\<in>set ys. ?f z < ?f b" and le: "\<forall>z\<in>set zs. ?f z \<le> ?f b" by blast
  have g: "generate_word ?m p = Inr b"
    using trained_keyed [OF assms(1), of k p] ne c
    by (simp add: generate_word_def key_pairs_def b_def)
  have "sort_reverse (key_pairs ?m ?c)
          = b # map snd (rev (sort_key fst (rev (map (\<lambda>w. (?f w, w)) (ys @ zs)))))"
    unfolding key_pairs_def c by (rule sort_reverse_head [OF d lt le])
  then have "take (nat top_k) (sort_reverse (key_pairs ?m ?c))
      = b # take (nat top_k - 1) (map snd (rev (sort_key fst (rev (map (\<lambda>w. (?f w, w)) (ys @ zs))))))"
    using assms(3) by (simp add: take_Cons')
  then have t: "\<exists>r. predict_top_words ?m p top_k = Inr (b # r)"
    using trained_predict [OF assms(1), of k p top_k] assms(3) by (simp add: pyslice_take)
  have "find (\<lambda>w. \<forall>c\<in>set ?c. ?f c \<le> ?f w) ?c = Some b"
    unfolding c d by (rule find_first_max [OF lt le])
  with g t show ?thesis by auto
qed

theorem generate_word_heads_ranking_witness:
  "iteration_order [''car'', ''cat'', ''dog''] ''cat dog car cat''
   \<and> (\<exists>w\<in>set [''car'', ''cat'', ''dog'']. startswith w ''c'') \<and> (1::int) \<le> 10
   \<and> (\<exists>b r. generate_word (trained 2 ''cat dog car cat'' [''car'', ''cat'', ''dog'']) ''c'' = Inr b
          \<and> predict_top_words (trained 2 ''cat dog car cat'' [''car'', ''cat'', ''dog'']) ''c'' 10 = Inr (b # r)
          \<and> find (\<lambda>w. \<forall>c\<in>set (candidates_for (trained 2 ''cat dog car cat'' [''car'', ''cat'', ''dog'']) ''c'').
                         probability (trained 2 ''cat dog car cat'' [''car'', ''cat'', ''dog'']) c
                           \<le> probability (trained 2 ''cat dog car cat'' [''car'', ''cat'', ''dog'']) w)
                 (candidates_for (trained 2 ''cat dog car cat'' [''car'', ''cat'', ''dog'']) ''c'') = Some b)"
proof -
  have h: "iteration_order [''car'', ''cat'', ''dog''] ''cat dog car cat''"
    by (simp add: iteration_order_def split_def isspace_def) auto
  have c: "\<exists>w\<in>set [''car'', ''cat'', ''dog'']. startswith w ''c''"
    by (simp add: startswith_def)
  have k: "(1::int) \<le> 10" by simp
  from generate_word_heads_ranking [OF h c k, of 2] h c k show ?thesis by blast
qed

section \<open>Moving the cursor\<close>

text \<open>
  Claim C7, as stated, fails at the boundary.  After the keys \<open>c\<close> and Tab on a model
  trained on \<open>cat car\<close>, the cursor is at the end of the buffer, two suggestions are
  shown and the cycle index is 1; the key \<open>KEY_RIGHT\<close> leaves that state as it is,
  so the cycle index stays 1 and is not reset to 0.
\<close>

theorem move_right_at_end_keeps_cycle_index:
  "(case run (TerminalUI (train (empty_model 2) ''cat car'')) [99, 9] of
      Inl e \<Rightarrow> False
    | Inr s \<Rightarrow> handle_input s KEY_RIGHT = Inr (s, True)
               \<and> cursor_pos s = length (user_input s)
               \<and> length (suggestions s) = 2
               \<and> current_suggestion_idx s = 1)"
proof -
  let ?m = "train (empty_model 2) ''cat car''"
  let ?s1 = "(TerminalUI ?m)\<lparr>total_letter_keys_typed := 1, user_input := ''c'', cursor_pos := 1\<rparr>"
  have w: "get_current_word ?s1 = ''c''"
    by (rule current_word_c) simp_all
  from train_predict_length [of 10 2 "''cat car''" "''c''"]
  obtain r where r: "predict_top_words ?m ''c'' 10 = Inr r" and "length r = 2"
    by (auto simp: words_cat_car startswith_def)
  then have len: "length r = Suc (Suc 0)" by simp
  then have ne: "r \<noteq> []" by auto
  have rf: "refresh_suggestions ?s1 = Inr (?s1\<lparr>suggestions := r, current_suggestion_idx := 0\<rparr>)"
    using r w by (simp add: refresh_suggestions_def TerminalUI_def)
  let ?s2 = "rescore (?s1\<lparr>suggestions := r, current_suggestion_idx := 0\<rparr>)"
  have k1: "handle_input (TerminalUI ?m) 99 = Inr (?s2, True)"
  proof -
    have "(TerminalUI ?m)\<lparr>total_letter_keys_typed := total_letter_keys_typed (TerminalUI ?m) + 1,
             user_input := pyslice (user_input (TerminalUI ?m)) 0 (int (cursor_pos (TerminalUI ?m)))
                 @ [char_of (99::int)] @ drop (cursor_pos (TerminalUI ?m)) (user_input (TerminalUI ?m)),
             cursor_pos := cursor_pos (TerminalUI ?m) + 1\<rparr> = ?s1"
      by (simp add: TerminalUI_def pyslice_def clip_def char_of_def)
    then show ?thesis
      using rf by (simp add: handle_input_def key_defs Let_def)
  qed
  let ?s3 = "?s2\<lparr>current_suggestion_idx := 1, total_tab_key_presses := 1\<rparr>"
  have k2: "handle_input ?s2 9 = Inr (?s3, True)"
    using ne len by (simp add: handle_input_def key_defs Let_def rescore_def TerminalUI_def)
  have k3: "handle_input ?s3 KEY_RIGHT = Inr (?s3, True)"
    by (simp add: handle_input_def key_defs rescore_def)
  have "run (TerminalUI ?m) [99, 9] = Inr ?s3"
    using k1 k2 by simp
  with k3 len show ?thesis by (simp add: rescore_def)
qed

text \<open>
  Claim C7, amended.  In every state whose cursor is within the buffer and whose model
  was trained (on any corpus, in any iteration order of its word set), \<open>KEY_LEFT\<close>
  and \<open>KEY_RIGHT\<close> return without raising and keep the loop running; the cursor moves
  by one, clamped to \<open>[0, len(buffer)]\<close>.  When the cursor moves, the suggestions are
  those of \<open>predict_top_words\<close> for the word now before the cursor, the cycle index is
  0, and nothing else changes; when the cursor is already at the boundary, the state
  is unchanged.
\<close>

theorem cursor_moves_within_buffer:
  assumes "iteration_order ws corpus" and "prediction_model s = trained k corpus ws"
    and "cursor_pos s \<le> length (user_input s)"
  shows "\<exists>l r. handle_input s KEY_LEFT = Inr (l, True) \<and> handle_input s KEY_RIGHT = Inr (r, True)
     \<and> int (cursor_pos l) = max 0 (int (cursor_pos s) - 1)
     \<and> int (cursor_pos r) = min (int (length (user_input s))) (int (cursor_pos s) + 1)
     \<and> (if cursor_pos l = cursor_pos s then l = s
         else predict_top_words (prediction_model s) (get_current_word l) 10 = Inr (suggestions l)
              \<and> l = s\<lparr>cursor_pos := cursor_pos l, suggestions := suggestions l,
                       current_suggestion_idx := 0\<rparr>)
     \<and> (if cursor_pos r = cursor_pos s then r = s
         else predict_top_words (prediction_model s) (get_current_word r) 10 = Inr (suggestions r)
              \<and> r = s\<lparr>cursor_pos := cursor_pos r, suggestions := suggestions r,
                       current_suggestion_idx := 0\<rparr>)"
proof -
  have L: "\<exists>l. handle_input s KEY_LEFT = Inr (l, True)
     \<and> int (cursor_pos l) = max 0 (int (cursor_pos s) - 1)
     \<and> (if cursor_pos l = cursor_pos s then l = s
         else predict_top_words (prediction_model s) (get_current_word l) 10 = Inr (suggestions l)
              \<and> l = s\<lparr>cursor_pos := cursor_pos l, suggestions := suggestions l,
                       current_suggestion_idx := 0\<rparr>)"
  proof (cases "cursor_pos s > 0")
    case False
    then show ?thesis
      by (simp add: handle_input_def KEY_LEFT_def KEY_RIGHT_def KEY_BACKSPACE_def KEY_RESIZE_def)
  next
    case True
    let ?s1 = "s\<lparr>cursor_pos := cursor_pos s - 1\<rparr>"
    from trained_refresh [OF assms(1), of ?s1 k] assms(2)
    obtain sg where p: "predict_top_words (prediction_model s) (get_current_word ?s1) 10 = Inr sg"
      and rf: "refresh_suggestions ?s1 = Inr (?s1\<lparr>suggestions := sg, current_suggestion_idx := 0\<rparr>)"
      by auto
    let ?l = "?s1\<lparr>suggestions := sg, current_suggestion_idx := 0\<rparr>"
    have h: "handle_input s KEY_LEFT = Inr (?l, True)"
      using True rf
      by (simp add: handle_input_def KEY_LEFT_def KEY_RIGHT_def KEY_BACKSPACE_def KEY_RESIZE_def)
    have w: "get_current_word ?l = get_current_word ?s1"
      by (rule get_current_word_cong) simp_all
    show ?thesis
      apply (rule exI [of _ ?l])
      using True h p w by simp
  qed
  have R: "\<exists>r. handle_input s KEY_RIGHT = Inr (r, True)
     \<and> int (cursor_pos r) = min (int (length (user_input s))) (int (cursor_pos s) + 1)
     \<and> (if cursor_pos r = cursor_pos s then r = s
         else predict_top_words (prediction_model s) (get_current_word r) 10 = Inr (suggestions r)
              \<and> r = s\<lparr>cursor_pos := cursor_pos r, suggestions := suggestions r,
                       current_suggestion_idx := 0\<rparr>)"
  proof (cases "cursor_pos s < length (user_input s)")
    case False
    with assms(3) show ?thesis
      by (simp add: handle_input_def KEY_LEFT_def KEY_RIGHT_def KEY_BACKSPACE_def KEY_RESIZE_def)
  next
    case True
    let ?s1 = "s\<lparr>cursor_pos := cursor_pos s + 1\<rparr>"
    from trained_refresh [OF assms(1), of ?s1 k] assms(2)
    obtain sg where p: "predict_top_words (prediction_model s) (get_current_word ?s1) 10 = Inr sg"
      and rf: "refresh_suggestions ?s1 = Inr (?s1\<lparr>suggestions := sg, current_suggestion_idx := 0\<rparr>)"
      by auto
    let ?r = "?s1\<lparr>suggestions := sg, current_suggestion_idx := 0\<rparr>"
    have h: "handle_input s KEY_RIGHT = Inr (?r, True)"
      using True rf
      by (simp add: handle_input_def KEY_LEFT_def KEY_RIGHT_def KEY_BACKSPACE_def KEY_RESIZE_def)
    have w: "get_current_word ?r = get_current_word ?s1"
      by (rule get_current_word_cong) simp_all
    show ?thesis
      apply (rule exI [of _ ?r])
      using True h p w by simp
  qed
  from L R show ?thesis by blast
qed

theorem cursor_moves_within_buffer_witness:
  "iteration_order [''car'', ''cat''] ''cat car''
   \<and> prediction_model ((TerminalUI (trained 2 ''cat car'' [''car'', ''cat'']))\<lparr>user_input := ''ca'', cursor_pos := 1\<rparr>)
       = trained 2 ''cat car'' [''car'', ''cat'']
   \<and> cursor_pos ((TerminalUI (trained 2 ''cat car'' [''car'', ''cat'']))\<lparr>user_input := ''ca'', cursor_pos := 1\<rparr>)
       \<le> length (user_input ((TerminalUI (trained 2 ''cat car'' [''car'', ''cat'']))\<lparr>user_input := ''ca'', cursor_pos := 1\<rparr>))
   \<and> (\<exists>l r. handle_input ((TerminalUI (trained 2 ''cat car'' [''car'', ''cat'']))\<lparr>user_input := ''ca'', cursor_pos := 1\<rparr>) KEY_LEFT = Inr (l, True)
         \<and> handle_input ((TerminalUI (trained 2 ''cat car'' [''car'', ''cat'']))\<lparr>user_input := ''ca'', cursor_pos := 1\<rparr>) KEY_RIGHT = Inr (r, True)
         \<and> cursor_pos l = 0 \<and> cursor_pos r = 2
         \<and> current_suggestion_idx l = 0 \<and> current_suggestion_idx r = 0)"
proof -
  let ?s = "(TerminalUI (trained 2 ''cat car'' [''car'', ''cat'']))\<lparr>user_input := ''ca'', cursor_pos := 1\<rparr>"
  have h: "iteration_order [''car'', ''cat''] ''cat car''"
    by (simp add: iteration_order_def split_def isspace_def) auto
  have m: "prediction_model ?s = trained 2 ''cat car'' [''car'', ''cat'']"
    by (simp add: TerminalUI_def)
  have c: "cursor_pos ?s \<le> length (user_input ?s)" by simp
  have u: "cursor_pos ?s = 1" "length (user_input ?s) = 2" by simp_all
  from cursor_moves_within_buffer [OF h m c] obtain l r where
    hl: "handle_input ?s KEY_LEFT = Inr (l, True)" and hr: "handle_input ?s KEY_RIGHT = Inr (r, True)"
    and cl: "int (cursor_pos l) = max 0 (int (cursor_pos ?s) - 1)"
    and cr: "int (cursor_pos r) = min (int (length (user_input ?s))) (int (cursor_pos ?s) + 1)"
    and il: "if cursor_pos l = cursor_pos ?s then l = ?s
         else predict_top_words (prediction_model ?s) (get_current_word l) 10 = Inr (suggestions l)
              \<and> l = ?s\<lparr>cursor_pos := cursor_pos l, suggestions := suggestions l,
                       current_suggestion_idx := 0\<rparr>"
    and ir: "if cursor_pos r = cursor_pos ?s then r = ?s
         else predict_top_words (prediction_model ?s) (get_current_word r) 10 = Inr (suggestions r)
              \<and> r = ?s\<lparr>cursor_pos := cursor_pos r, suggestions := suggestions r,
                       current_suggestion_idx := 0\<rparr>"
    by blast
  from cl cr u have p: "cursor_pos l = 0" "cursor_pos r = 2" by simp_all
  from il p u have "l = ?s\<lparr>cursor_pos := cursor_pos l, suggestions := suggestions l,
                       current_suggestion_idx := 0\<rparr>" by simp
  then have "current_suggestion_idx l = current_suggestion_idx (?s\<lparr>cursor_pos := cursor_pos l,
      suggestions := suggestions l, current_suggestion_idx := 0\<rparr>)" by (rule arg_cong)
  then have xl: "current_suggestion_idx l = 0" by simp
  from ir p u have "r = ?s\<lparr>cursor_pos := cursor_pos r, suggestions := suggestions r,
                       current_suggestion_idx := 0\<rparr>" by simp
  then have "current_suggestion_idx r = current_suggestion_idx (?s\<lparr>cursor_pos := cursor_pos r,
      suggestions := suggestions r, current_suggestion_idx := 0\<rparr>)" by (rule arg_cong)
  then have xr: "current_suggestion_idx r = 0" by simp
  from hl hr p xl xr h m c show ?thesis by blast
qed

section \<open>Quitting\<close>

text \<open>
  Claim C8, as stated, fails: \<open>handle_input\<close> keeps no record of a quit.  The key ESC
  returns \<open>False\<close> and leaves the state as it is, and the key \<open>a\<close> dispatched to that
  state is processed as usual: it is inserted into the buffer, the cursor advances and
  the letter counter is incremented.
\<close>

theorem dispatch_after_quit_mutates:
  "handle_input (TerminalUI (train (empty_model 2) ''cat'')) 27
     = Inr (TerminalUI (train (empty_model 2) ''cat''), False)
   \<and> (case handle_input (TerminalUI (train (empty_model 2) ''cat'')) 97 of
         Inl e \<Rightarrow> False
       | Inr (s, running) \<Rightarrow> user_input s = ''a'' \<and> cursor_pos s = 1
                               \<and> total_letter_keys_typed s = 1
                               \<and> user_input (TerminalUI (train (empty_model 2) ''cat'')) = [])"
proof -
  let ?m = "train (empty_model 2) ''cat''"
  let ?s1 = "(TerminalUI ?m)\<lparr>total_letter_keys_typed := 1, user_input := ''a'', cursor_pos := 1\<rparr>"
  have "words ?m = [''cat'']"
    by (simp add: train_words split_def isspace_def set_add_def)
  then have "predict_top_words ?m p 10 = Inr []" if "\<not> startswith ''cat'' p" for p
    using that by (simp add: predict_top_words_def candidates_for_def)
  moreover have "get_current_word ?s1 = ''a''"
    by (simp add: get_current_word_def find_last_word_start_def tail_match_def pyslice_def
      clip_def isspace_def Let_def)
  ultimately have rf: "refresh_suggestions ?s1 = Inr (?s1\<lparr>suggestions := [], current_suggestion_idx := 0\<rparr>)"
    by (simp add: refresh_suggestions_def TerminalUI_def startswith_def)
  have "(TerminalUI ?m)\<lparr>total_letter_keys_typed := total_letter_keys_typed (TerminalUI ?m) + 1,
             user_input := pyslice (user_input (TerminalUI ?m)) 0 (int (cursor_pos (TerminalUI ?m)))
                 @ [char_of (97::int)] @ drop (cursor_pos (TerminalUI ?m)) (user_input (TerminalUI ?m)),
             cursor_pos := cursor_pos (TerminalUI ?m) + 1\<rparr> = ?s1"
    by (simp add: TerminalUI_def pyslice_def clip_def char_of_def)
  then have "handle_input (TerminalUI ?m) 97
      = Inr (rescore (?s1\<lparr>suggestions := [], current_suggestion_idx := 0\<rparr>), True)"
    using rf by (simp add: handle_input_def key_defs Let_def)
  moreover have "handle_input (TerminalUI ?m) 27 = Inr (TerminalUI ?m, False)"
    by (simp add: handle_input_def key_defs)
  ultimately show ?thesis by (simp add: rescore_def TerminalUI_def)
qed

text \<open>
  Claim C8, amended.  The key ESC leaves the state unchanged and makes \<open>handle_input\<close>
  return \<open>False\<close>, which ends the loop of \<open>run\<close>: the keys that follow it are never
  dispatched, so the run ends in the state reached by the keys before it.
\<close>

theorem quit_ends_run:
  "handle_input s 27 = Inr (s, False)
   \<and> run s (27 # keys) = Inr s
   \<and> (27 \<notin> set pre \<longrightarrow> run s (pre @ 27 # keys) = run s pre)"
proof -
  have q: "handle_input s 27 = Inr (s, False)" for s
    by (simp add: handle_input_def key_defs)
  then have r: "run s (27 # keys) = Inr s" for s by simp
  have "run s (pre @ 27 # keys) = run s pre" if "27 \<notin> set pre"
    using run_append [OF that, of s "27 # keys"] r by (simp split: sum.splits)
  with q r show ?thesis by blast
qed

theorem quit_ends_run_witness:
  "27 \<notin> set [9, 99 :: int]
   \<and> handle_input (TerminalUI (train (empty_model 2) ''cat'')) 27 = Inr (TerminalUI (train (empty_model 2) ''cat''), False)
   \<and> run (TerminalUI (train (empty_model 2) ''cat'')) (27 # [97]) = Inr (TerminalUI (train (empty_model 2) ''cat''))
   \<and> run (TerminalUI (train (empty_model 2) ''cat'')) ([9, 99] @ 27 # [97]) = run (TerminalUI (train (empty_model 2) ''cat'')) [9, 99]"
proof -
  have h: "27 \<notin> set [9, 99 :: int]" by simp
  from quit_ends_run [of "TerminalUI (train (empty_model 2) ''cat'')" "[97]" "[9, 99]"] h show ?thesis by blast
qed

section \<open>The metrics\<close>

text \<open>
  Claim C9.  \<open>calculate_scores\<close> returns the two counters and the two averages; each
  average is the counter divided by the number of whitespace-delimited words of the
  text, and 0 when the text has no word.  With 6 letters typed, 2 Tab presses and a
  text of 2 words the averages are 3 and 1.
\<close>

theorem calculate_scores_averages:
  "calculate_scores s text
     = [real (total_letter_keys_typed s), real (total_tab_key_presses s),
        (if split text = [] then 0
         else real (total_letter_keys_typed s) / real (length (split text))),
        (if split text = [] then 0
         else real (total_tab_key_presses s) / real (length (split text)))]
   \<and> (total_letter_keys_typed s = 6 \<and> total_tab_key_presses s = 2 \<and> length (split text) = 2
        \<longrightarrow> calculate_scores s text = [6, 2, 3, 1])"
  by (auto simp: calculate_scores_def split_strip Let_def)

theorem calculate_scores_averages_witness:
  "total_letter_keys_typed ((TerminalUI (train (empty_model 2) ''cat''))\<lparr>total_letter_keys_typed := 6, total_tab_key_presses := 2\<rparr>) = 6
   \<and> total_tab_key_presses ((TerminalUI (train (empty_model 2) ''cat''))\<lparr>total_letter_keys_typed := 6, total_tab_key_presses := 2\<rparr>) = 2
   \<and> length (split ''abc def'') = 2
   \<and> calculate_scores ((TerminalUI (train (empty_model 2) ''cat''))\<lparr>total_letter_keys_typed := 6, total_tab_key_presses := 2\<rparr>) ''abc def''
       = [6, 2, 3, 1]"
proof -
  let ?s = "(TerminalUI (train (empty_model 2) ''cat''))\<lparr>total_letter_keys_typed := 6, total_tab_key_presses := 2\<rparr>"
  have c: "total_letter_keys_typed ?s = 6 \<and> total_tab_key_presses ?s = 2
             \<and> length (split ''abc def'') = 2"
    by (simp add: split_def isspace_def)
  from calculate_scores_averages [of ?s "''abc def''"] c have "calculate_scores ?s ''abc def'' = [6, 2, 3, 1]"
    by blast
  with c show ?thesis by blast
qed

end
